theory Spec2Isabelle
  imports
    Complex_Main
    "HOL-Library.Multiset"
    "HOL-Library.Sublist"
    "HOL-Library.Signed_Division"
begin

section \<open>Data model\<close>

text \<open>
  Both variants of the demo (the naive \<^verbatim>\<open>App.tsx\<close> and the optimized one) declare
  \<^verbatim>\<open>type Item = { id: number; name: string; price: number; category: string }\<close>.
  The numbers the Item Store produces are integers (\<^verbatim>\<open>i + 1\<close> and
  \<^verbatim>\<open>Math.round(...)\<close>), so \<open>id\<close> and \<open>price\<close> are modelled as \<open>int\<close>; the sums
  of the prices of the store's items stay far inside the range in which a double is
  exact. A string is a list of code units. The field \<open>id\<close> is called \<open>item_id\<close> because
  \<open>id\<close> is the identity function of HOL.
\<close>

record Item =
  item_id :: int
  name :: string
  price :: int
  category :: string

text \<open>\<^verbatim>\<open>useState<"name" | "price">("name")\<close>\<close>

datatype SortKey = Name | Price

datatype js_error = RangeError | TypeError

definition CATEGORIES :: "string list" where
  "CATEGORIES = [''Hardware'', ''Software'', ''Books'', ''Accessories'']"

section \<open>Built-ins of the language\<close>

text \<open>
  \<^verbatim>\<open>String.prototype.includes\<close>: \<open>js_includes s q\<close> is \<^verbatim>\<open>s.includes(q)\<close>, a search
  for \<open>q\<close> at every position of \<open>s\<close>.
\<close>

fun startsWith :: "'a list \<Rightarrow> 'a list \<Rightarrow> bool" where
  "startsWith s [] = True"
| "startsWith [] (q # qs) = False"
| "startsWith (c # cs) (q # qs) = (c = q \<and> startsWith cs qs)"

fun js_includes :: "'a list \<Rightarrow> 'a list \<Rightarrow> bool" where
  "js_includes [] q = (q = [])"
| "js_includes (c # cs) q = (startsWith (c # cs) q \<or> js_includes cs q)"

text \<open>
  \<^verbatim>\<open>Array.prototype.sort(comparefn)\<close> is a stable sort: an element \<open>x\<close> goes before
  the elements that followed it in the input unless the comparator puts one of them
  strictly first (\<open>comparefn x y > 0\<close>). It is modelled as the stable insertion sort; for
  a consistent comparator any other stable sort returns the same sequence
  (\<open>array_sort_unique\<close> below).
\<close>

fun insert_sorted :: "('a \<Rightarrow> 'a \<Rightarrow> int) \<Rightarrow> 'a \<Rightarrow> 'a list \<Rightarrow> 'a list" where
  "insert_sorted comparefn x [] = [x]"
| "insert_sorted comparefn x (y # ys) =
     (if comparefn x y \<le> 0 then x # y # ys else y # insert_sorted comparefn x ys)"

definition array_sort :: "('a \<Rightarrow> 'a \<Rightarrow> int) \<Rightarrow> 'a list \<Rightarrow> 'a list" where
  "array_sort comparefn xs = foldr (insert_sorted comparefn) xs []"

text \<open>
  \<^verbatim>\<open>Array.prototype.reduce((acc, item) => acc + item.price, 0)\<close>, as both variants
  compute the total.
\<close>

definition sum_price :: "Item list \<Rightarrow> int" where
  "sum_price rows = foldl (\<lambda>acc item. acc + price item) 0 rows"

text \<open>
  \<^verbatim>\<open>list[index]\<close> for a number \<open>index\<close>: \<^verbatim>\<open>undefined\<close> (here \<open>None\<close>) outside
  \<open>0 \<le> index < length\<close>.
\<close>

definition array_get :: "'a list \<Rightarrow> int \<Rightarrow> 'a option" where
  "array_get xs i = (if 0 \<le> i \<and> i < int (length xs) then Some (xs ! nat i) else None)"

text \<open>
  The remainder operator \<^verbatim>\<open>%\<close> of the language truncates towards zero: it is
  \<open>smod\<close> on the integers.
\<close>

definition js_rem :: "int \<Rightarrow> int \<Rightarrow> int" where
  "js_rem a b = a smod b"

text \<open>
  \<^verbatim>\<open>String.prototype.toLowerCase\<close> and \<^verbatim>\<open>String.prototype.localeCompare\<close> depend on
  the Unicode tables and on the locale of the host. The model takes them as the
  parameters \<open>toLowerCase\<close> and \<open>localeCompare\<close> of every function that calls them, and a
  theorem states what it needs of them as a premise. The two functions below are an
  instance (ASCII letters, code-unit order) at which the theorems are evaluated.
\<close>

fun ascii_lower_char :: "char \<Rightarrow> char" where
  "ascii_lower_char (Char b0 b1 b2 b3 b4 b5 b6 b7) =
     (let n = (of_char (Char b0 b1 b2 b3 b4 b5 b6 b7) :: nat)
      in if 65 \<le> n \<and> n \<le> 90 then Char b0 b1 b2 b3 b4 True b6 b7
         else Char b0 b1 b2 b3 b4 b5 b6 b7)"

definition ascii_toLowerCase :: "string \<Rightarrow> string" where
  "ascii_toLowerCase s = map ascii_lower_char s"

fun code_unit_compare :: "string \<Rightarrow> string \<Rightarrow> int" where
  "code_unit_compare [] [] = 0"
| "code_unit_compare [] (b # bs) = - 1"
| "code_unit_compare (a # as) [] = 1"
| "code_unit_compare (a # as) (b # bs) =
     (if (of_char a :: nat) < of_char b then - 1
      else if (of_char b :: nat) < of_char a then 1
      else code_unit_compare as bs)"

section \<open>Derived-View Engine\<close>

text \<open>
  The comparator both variants pass to \<^verbatim>\<open>sort\<close>:
  \<^verbatim>\<open>(a, b) => sortBy === "name" ? a.name.localeCompare(b.name) : a.price - b.price\<close>
\<close>

definition compareItems :: "(string \<Rightarrow> string \<Rightarrow> int) \<Rightarrow> SortKey \<Rightarrow> Item \<Rightarrow> Item \<Rightarrow> int" where
  "compareItems localeCompare sortBy a b =
     (if sortBy = Name then localeCompare (name a) (name b) else price a - price b)"

text \<open>
  The naive variant (\<^verbatim>\<open>App.tsx\<close>, \<^verbatim>\<open>naiveList\<close> and \<^verbatim>\<open>total\<close>), computed inline
  on every render:
  \<^verbatim>\<open>items.filter((it) => it.name.toLowerCase().includes(search.toLowerCase())).sort(...)\<close>
\<close>

definition naiveList ::
  "(string \<Rightarrow> string) \<Rightarrow> (string \<Rightarrow> string \<Rightarrow> int) \<Rightarrow> Item list \<Rightarrow> string \<Rightarrow> SortKey \<Rightarrow> Item list" where
  "naiveList toLowerCase localeCompare items search sortBy =
     array_sort (compareItems localeCompare sortBy)
       (filter (\<lambda>it. js_includes (toLowerCase (name it)) (toLowerCase search)) items)"

definition naiveTotal ::
  "(string \<Rightarrow> string) \<Rightarrow> (string \<Rightarrow> string \<Rightarrow> int) \<Rightarrow> Item list \<Rightarrow> string \<Rightarrow> SortKey \<Rightarrow> int" where
  "naiveTotal toLowerCase localeCompare items search sortBy =
     sum_price (naiveList toLowerCase localeCompare items search sortBy)"

text \<open>
  The optimized variant, the body of the \<^verbatim>\<open>useMemo\<close> callback of \<^verbatim>\<open>optimizedList\<close>
  on the contents of the arrays: \<open>q\<close> is lowered once, an empty \<open>q\<close> is falsy and skips
  the filter, and the sort works on a copy.
\<close>

definition optimizedBase :: "(string \<Rightarrow> string) \<Rightarrow> Item list \<Rightarrow> string \<Rightarrow> Item list" where
  "optimizedBase toLowerCase items deferredSearch =
     (let q = toLowerCase deferredSearch
      in if q \<noteq> [] then filter (\<lambda>it. js_includes (toLowerCase (name it)) q) items else items)"

definition optimizedRows ::
  "(string \<Rightarrow> string) \<Rightarrow> (string \<Rightarrow> string \<Rightarrow> int) \<Rightarrow> Item list \<Rightarrow> string \<Rightarrow> SortKey \<Rightarrow> Item list" where
  "optimizedRows toLowerCase localeCompare items deferredSearch sortBy =
     array_sort (compareItems localeCompare sortBy) (optimizedBase toLowerCase items deferredSearch)"

section \<open>Object identity and memoization\<close>

text \<open>
  Arrays and sets are objects: two of them are the same for \<^verbatim>\<open>Object.is\<close> when they
  are the same reference, whatever they contain. A heap is the list of the objects
  allocated so far and a reference is an index into it, so a new object always gets a
  reference no earlier object has. Nothing is ever freed.
\<close>

type_synonym ref = nat

definition alloc :: "'a list \<Rightarrow> 'a \<Rightarrow> ref \<times> 'a list" where
  "alloc h v = (length h, h @ [v])"

text \<open>
  \<^verbatim>\<open>useMemo(create, deps)\<close> of React: the hook keeps the dependencies and the value
  of the last computation. On mount (\<open>None\<close>) it calls \<open>create\<close>; on an update it
  compares the dependencies with the stored ones by \<^verbatim>\<open>Object.is\<close> (the reference
  of an array, the value of a string or number) and returns the stored value when they
  all agree, calling \<open>create\<close> otherwise. \<open>create\<close> runs in the world \<open>w\<close>, which it may
  change by allocating.
\<close>

definition useMemo ::
  "('w \<Rightarrow> 'v \<times> 'w) \<Rightarrow> 'd \<Rightarrow> ('d \<times> 'v) option \<Rightarrow> 'w \<Rightarrow> 'v \<times> ('d \<times> 'v) option \<times> 'w" where
  "useMemo create deps cell w =
     (case cell of
        None \<Rightarrow> (let (v, w') = create w in (v, Some (deps, v), w'))
      | Some (prevDeps, prevValue) \<Rightarrow>
          if prevDeps = deps then (prevValue, cell, w)
          else (let (v, w') = create w in (v, Some (deps, v), w')))"

text \<open>
  The world of the optimized \<^verbatim>\<open>App\<close>: the arrays allocated so far, and two
  counters that are not in the source: \<open>listRuns\<close> counts the calls of the callback of
  \<^verbatim>\<open>optimizedList\<close>, \<open>totalRuns\<close> those of the callback of \<^verbatim>\<open>total\<close>.
\<close>

record world =
  arrays :: "Item list list"
  listRuns :: nat
  totalRuns :: nat

text \<open>The two \<^verbatim>\<open>useMemo\<close> cells of the component.\<close>

record hooks =
  listMemo :: "((ref \<times> string \<times> SortKey) \<times> ref) option"
  totalMemo :: "(ref \<times> int) option"

text \<open>
  The callback of \<^verbatim>\<open>optimizedList\<close> on the heap: \<^verbatim>\<open>items.filter\<close> allocates an
  array (only when \<open>q\<close> is not empty), \<^verbatim>\<open>[...base]\<close> allocates the copy, and
  \<^verbatim>\<open>sort\<close> sorts the copy in place and returns it.
\<close>

definition optimizedList_create ::
  "(string \<Rightarrow> string) \<Rightarrow> (string \<Rightarrow> string \<Rightarrow> int) \<Rightarrow> ref \<Rightarrow> string \<Rightarrow> SortKey \<Rightarrow> world \<Rightarrow> ref \<times> world" where
  "optimizedList_create toLowerCase localeCompare items deferredSearch sortBy w =
     (let q = toLowerCase deferredSearch;
          (base, h1) =
            (if q \<noteq> []
             then alloc (arrays w)
                    (filter (\<lambda>it. js_includes (toLowerCase (name it)) q) (arrays w ! items))
             else (items, arrays w));
          (sorted, h2) = alloc h1 (h1 ! base);
          h3 = h2[sorted := array_sort (compareItems localeCompare sortBy) (h2 ! sorted)]
      in (sorted, w\<lparr>arrays := h3, listRuns := listRuns w + 1\<rparr>))"

text \<open>The callback of \<^verbatim>\<open>total\<close>: \<^verbatim>\<open>optimizedList.reduce((sum, i) => sum + i.price, 0)\<close>.\<close>

definition total_create :: "ref \<Rightarrow> world \<Rightarrow> int \<times> world" where
  "total_create optimizedList w =
     (sum_price (arrays w ! optimizedList), w\<lparr>totalRuns := totalRuns w + 1\<rparr>)"

text \<open>
  One render of the optimized \<^verbatim>\<open>App\<close>, as far as the derived view goes:
  \<^verbatim>\<open>useMemo(..., [items, deferredSearch, sortBy])\<close>, then
  \<^verbatim>\<open>useMemo(..., [optimizedList])\<close>. It returns the reference of the rows and the
  total.
\<close>

definition renderDerived ::
  "(string \<Rightarrow> string) \<Rightarrow> (string \<Rightarrow> string \<Rightarrow> int) \<Rightarrow> ref \<Rightarrow> string \<Rightarrow> SortKey \<Rightarrow>
   hooks \<times> world \<Rightarrow> (ref \<times> int) \<times> (hooks \<times> world)" where
  "renderDerived toLowerCase localeCompare items deferredSearch sortBy st =
     (let (optimizedList, lm, w1) =
            useMemo (optimizedList_create toLowerCase localeCompare items deferredSearch sortBy)
              (items, deferredSearch, sortBy) (listMemo (fst st)) (snd st);
          (total, tm, w2) =
            useMemo (total_create optimizedList) optimizedList (totalMemo (fst st)) w1
      in ((optimizedList, total), (\<lparr>listMemo = lm, totalMemo = tm\<rparr>, w2)))"

text \<open>
  The component is mounted with \<^verbatim>\<open>useState(() => createItems())\<close>: the item
  array is the first object, at reference \<open>0\<close>, and no hook has run. \<^verbatim>\<open>items\<close> is
  never set again, so every render sees that reference; what changes from a render to
  the next is the settled filter text and the sort key.
\<close>

definition mount :: "Item list \<Rightarrow> hooks \<times> world" where
  "mount items =
     (\<lparr>listMemo = None, totalMemo = None\<rparr>, \<lparr>arrays = [items], listRuns = 0, totalRuns = 0\<rparr>)"

fun renders ::
  "(string \<Rightarrow> string) \<Rightarrow> (string \<Rightarrow> string \<Rightarrow> int) \<Rightarrow> (string \<times> SortKey) list \<Rightarrow>
   hooks \<times> world \<Rightarrow> hooks \<times> world" where
  "renders toLowerCase localeCompare [] st = st"
| "renders toLowerCase localeCompare ((deferredSearch, sortBy) # inputs) st =
     renders toLowerCase localeCompare inputs
       (snd (renderDerived toLowerCase localeCompare 0 deferredSearch sortBy st))"

text \<open>
  What the memo cells promise about a state: the stored rows are the rows of the stored
  inputs, the stored total is the sum over the stored rows, the two cells were filled
  together, and every stored reference is allocated.
\<close>

definition consistent ::
  "(string \<Rightarrow> string) \<Rightarrow> (string \<Rightarrow> string \<Rightarrow> int) \<Rightarrow> hooks \<times> world \<Rightarrow> bool" where
  "consistent toLowerCase localeCompare st =
     (listRuns (snd st) = totalRuns (snd st) \<and>
      (case listMemo (fst st) of
         None \<Rightarrow> totalMemo (fst st) = None
       | Some ((items, deferredSearch, sortBy), rows) \<Rightarrow>
           items < length (arrays (snd st)) \<and> rows < length (arrays (snd st)) \<and>
           arrays (snd st) ! rows =
             optimizedRows toLowerCase localeCompare (arrays (snd st) ! items) deferredSearch sortBy \<and>
           totalMemo (fst st) = Some (rows, sum_price (arrays (snd st) ! rows))))"

section \<open>Favorite Set\<close>

text \<open>
  \<^verbatim>\<open>useState<Set<number>>(() => new Set())\<close>: the state holds a reference to a set.
  \<^verbatim>\<open>new Set(prev)\<close> allocates a copy; \<^verbatim>\<open>delete\<close> and \<^verbatim>\<open>add\<close> change the copy in
  place.
\<close>

record favState =
  favorites :: ref
  sets :: "int set list"

definition toggled :: "int set list \<Rightarrow> ref \<Rightarrow> int \<Rightarrow> ref \<times> int set list" where
  "toggled h prev ident =
     (let (next, h1) = alloc h (h ! prev);
          h2 = (if ident \<in> h1 ! next then h1[next := h1 ! next - {ident}]
                else h1[next := insert ident (h1 ! next)])
      in (next, h2))"

text \<open>
  \<^verbatim>\<open>naiveToggle\<close> copies the \<^verbatim>\<open>favorites\<close> its render closed over (the first
  argument) and sets the state to the copy.
\<close>

definition naiveToggle :: "ref \<Rightarrow> int \<Rightarrow> favState \<Rightarrow> favState" where
  "naiveToggle captured ident st =
     (let (next, h) = toggled (sets st) captured ident in \<lparr>favorites = next, sets = h\<rparr>)"

text \<open>\<^verbatim>\<open>optToggle\<close> passes an updater, which React applies to the current state.\<close>

definition optToggle :: "int \<Rightarrow> favState \<Rightarrow> favState" where
  "optToggle ident st =
     (let (next, h) = toggled (sets st) (favorites st) ident in \<lparr>favorites = next, sets = h\<rparr>)"

definition isFavorite :: "favState \<Rightarrow> int \<Rightarrow> bool" where
  "isFavorite st ident = (ident \<in> sets st ! favorites st)"

section \<open>Row Visual\<close>

record RowVisual =
  shown_name :: string
  shown_price :: int
  shown_category :: string
  star :: bool
  calc :: int

text \<open>
  \<^verbatim>\<open>NaiveRow\<close>:
  \<^verbatim>\<open>Array.from({ length: 500 }).reduce((acc: number) => acc + item.price, 0)\<close>, shown
  as \<^verbatim>\<open>cents % 7\<close>.
\<close>

definition NaiveRow :: "Item \<Rightarrow> bool \<Rightarrow> RowVisual" where
  "NaiveRow item isFav =
     (let cents = foldl (\<lambda>acc _. acc + price item) 0 (replicate 500 ())
      in \<lparr>shown_name = name item, shown_price = price item, shown_category = category item,
          star = isFav, calc = js_rem cents 7\<rparr>)"

text \<open>
  \<^verbatim>\<open>OptimizedRow\<close>: the loop
  \<^verbatim>\<open>for (let i = 0; i < 500; i++) acc += item.price; return acc % 7\<close> behind
  \<^verbatim>\<open>useMemo(..., [item.price])\<close>. The component is wrapped in \<^verbatim>\<open>React.memo\<close>,
  which keeps the visual of the last render when the row is given the same item and the
  same flag again; the model runs the function on every render, which shows the same
  visual.
\<close>

function fakeCalc_loop :: "int \<Rightarrow> int \<Rightarrow> int \<Rightarrow> int" where
  "fakeCalc_loop p i acc = (if i < 500 then fakeCalc_loop p (i + 1) (acc + p) else acc)"
  by pat_completeness auto
termination
  by (relation "measure (\<lambda>(p, i, acc). nat (500 - i))") auto

declare fakeCalc_loop.simps [simp del]

definition fakeCalc_create :: "int \<Rightarrow> int" where
  "fakeCalc_create p = js_rem (fakeCalc_loop p 0 0) 7"

definition OptimizedRow ::
  "Item \<Rightarrow> bool \<Rightarrow> (int \<times> int) option \<Rightarrow> RowVisual \<times> (int \<times> int) option" where
  "OptimizedRow item isFav cell =
     (let (fakeCalc, cell', u) =
            useMemo (\<lambda>u. (fakeCalc_create (price item), u)) (price item) cell ()
      in (\<lparr>shown_name = name item, shown_price = price item, shown_category = category item,
           star = isFav, calc = fakeCalc\<rparr>, cell'))"

text \<open>
  The renders a mounted row has gone through, each with the item and the favorite flag
  it was given; the result is the state of its memo cell.
\<close>

fun rowRenders :: "(Item \<times> bool) list \<Rightarrow> (int \<times> int) option \<Rightarrow> (int \<times> int) option" where
  "rowRenders [] cell = cell"
| "rowRenders ((item, isFav) # rest) cell = rowRenders rest (snd (OptimizedRow item isFav cell))"

text \<open>
  What the memo cell of a row promises: the stored value is the value of the calculation
  at the stored price.
\<close>

definition cell_ok :: "(int \<times> int) option \<Rightarrow> bool" where
  "cell_ok cell = (case cell of None \<Rightarrow> True | Some (p, v) \<Rightarrow> v = js_rem (500 * p) 7)"

text \<open>
  \<^verbatim>\<open>RowRenderer\<close>: \<^verbatim>\<open>data.list[index]\<close> is \<^verbatim>\<open>undefined\<close> outside the array, and
  reading \<^verbatim>\<open>item.id\<close> of it throws a \<^verbatim>\<open>TypeError\<close>. Otherwise the row hands the
  item and \<^verbatim>\<open>data.favorites.has(item.id)\<close> to \<^verbatim>\<open>OptimizedRow\<close>.
\<close>

definition RowRenderer :: "Item list \<Rightarrow> int set \<Rightarrow> int \<Rightarrow> js_error + (Item \<times> bool)" where
  "RowRenderer list favs index =
     (case array_get list index of
        None \<Rightarrow> Inl TypeError
      | Some item \<Rightarrow> Inr (item, item_id item \<in> favs))"

section \<open>Item Store\<close>

text \<open>
  \<^verbatim>\<open>Math.round\<close> rounds to the nearest integer, a half upwards. \<^verbatim>\<open>rand\<close> reads
  \<^verbatim>\<open>Math.random()\<close>, a number \<open>r\<close> with \<open>0 \<le> r < 1\<close>, which the model passes in.
\<close>

definition Math_round :: "real \<Rightarrow> int" where
  "Math_round x = \<lfloor>x + 1 / 2\<rfloor>"

definition rand :: "real \<Rightarrow> real \<Rightarrow> real \<Rightarrow> int" where
  "rand r mn mx = Math_round (r * (mx - mn) + mn)"

text \<open>The decimal digits of a number, as a template literal prints \<^verbatim>\<open>${i + 1}\<close>.\<close>

function decimal :: "nat \<Rightarrow> string" where
  "decimal n =
     (if n < 10 then [char_of (48 + n)] else decimal (n div 10) @ [char_of (48 + n mod 10)])"
  by pat_completeness auto
termination
  by (relation "measure (\<lambda>n. n)") auto

declare decimal.simps [simp del]

text \<open>
  \<^verbatim>\<open>Array.from({ length: n }, mapFn)\<close>: the length is \<^verbatim>\<open>ToLength(n)\<close>, which is
  \<open>0\<close> for \<open>n \<le> 0\<close> and at most \<open>2^53 - 1\<close>; the array constructor throws a
  \<^verbatim>\<open>RangeError\<close> for a length above \<open>2^32 - 1\<close>; \<open>mapFn\<close> is called on the indices in
  order.
\<close>

definition toLength :: "int \<Rightarrow> int" where
  "toLength n = (if n \<le> 0 then 0 else min n (2 ^ 53 - 1))"

definition Array_from :: "int \<Rightarrow> (nat \<Rightarrow> 'a) \<Rightarrow> js_error + 'a list" where
  "Array_from n mapFn =
     (let len = toLength n
      in if len > 2 ^ 32 - 1 then Inl RangeError else Inr (map mapFn [0..<nat len]))"

text \<open>
  \<^verbatim>\<open>createItems = (n = 10_000): Item[] => ...\<close>, the same in both variants. The
  argument is \<open>None\<close> when the caller passes none, as \<^verbatim>\<open>useState(() => createItems())\<close>
  does, and the count is then the default. \<open>random k\<close> is the value of the \<open>k\<close>-th
  call of \<^verbatim>\<open>Math.random()\<close>: the item at index \<open>i\<close> makes the calls \<open>2 * i\<close> (for
  the name) and \<open>2 * i + 1\<close> (for the price). \<open>toString36 r\<close> stands for
  \<^verbatim>\<open>r.toString(36).slice(2, 8)\<close>, the digits of a floating-point number, which the
  model leaves open.
\<close>

definition createItems ::
  "(nat \<Rightarrow> real) \<Rightarrow> (real \<Rightarrow> string) \<Rightarrow> int option \<Rightarrow> js_error + Item list" where
  "createItems random toString36 arg =
     (let n = (case arg of None \<Rightarrow> 10000 | Some n \<Rightarrow> n)
      in Array_from n (\<lambda>i.
           \<lparr>item_id = int i + 1,
            name = ''Product '' @ decimal (i + 1) @ [CHR '' '', CHR 0xB7, CHR '' '']
                     @ toString36 (random (2 * i)),
            price = rand (random (2 * i + 1)) 5 500,
            category = CATEGORIES ! (i mod length CATEGORIES)\<rparr>))"

text \<open>A source of random numbers and of suffixes at which \<open>createItems\<close> is evaluated.\<close>

definition half_random :: "nat \<Rightarrow> real" where
  "half_random k = 1 / 2"

definition no_suffix :: "real \<Rightarrow> string" where
  "no_suffix r = []"

section \<open>Windowed Renderer\<close>

text \<open>
  Modelled from the spec: sections 4.4 and 7 of the specification ask for indices and
  offsets that are clamped to a range; the source has no such function. \<open>clamp lo hi x\<close>
  is \<open>x\<close> when it lies between \<open>lo\<close> and \<open>hi\<close> and the nearer bound otherwise.
\<close>

definition clamp :: "int \<Rightarrow> int \<Rightarrow> int \<Rightarrow> int" where
  "clamp lo hi x = max lo (min hi x)"

text \<open>
  Modelled from the spec: the computation of the visible window is done by the
  \<^verbatim>\<open>FixedSizeList\<close> of the package react-window, which is not under \<^verbatim>\<open>src/\<close>; the
  source only passes it \<^verbatim>\<open>height={320}\<close>, \<^verbatim>\<open>itemSize={44}\<close> and
  \<^verbatim>\<open>itemCount={optimizedList.length}\<close>. The definition follows section 4.4 of the
  specification: given the number of rows \<open>R\<close>, the row height, the viewport height and
  the scroll offset, it computes \<open>[startIndex, endIndex)\<close>, the range of the rows that
  intersect the viewport, widened by an overscan margin of \<open>overscan\<close> rows on each side
  and clamped to \<open>[0, R]\<close>; a scroll offset outside the content is clamped first
  (section 7). The specification only calls the overscan small, so it is a parameter.
\<close>

definition visibleWindow :: "nat \<Rightarrow> int \<Rightarrow> int \<Rightarrow> nat \<Rightarrow> int \<Rightarrow> nat \<times> nat" where
  "visibleWindow overscan rowHeight viewportHeight R scrollOffset =
     (let maxOffset = max 0 (int R * rowHeight - viewportHeight);
          offset = clamp 0 maxOffset scrollOffset;
          firstVisible = offset div rowHeight;
          endVisible = - ((- (offset + viewportHeight)) div rowHeight);
          startIndex = clamp 0 (int R) (firstVisible - int overscan);
          endIndex = clamp 0 (int R) (endVisible + int overscan)
      in (nat startIndex, nat endIndex))"

text \<open>The data set of the scenario of section 8; it gives no categories.\<close>

definition dataset3 :: "string \<Rightarrow> string \<Rightarrow> string \<Rightarrow> Item list" where
  "dataset3 c1 c2 c3 =
     [\<lparr>item_id = 1, name = ''Zeta'', price = 10, category = c1\<rparr>,
      \<lparr>item_id = 2, name = ''Alpha'', price = 50, category = c2\<rparr>,
      \<lparr>item_id = 3, name = ''Beta'', price = 10, category = c3\<rparr>]"

section \<open>Properties of the built-ins\<close>

lemma startsWith_prefix: "startsWith s q = prefix q s"
  by (induction s q rule: startsWith.induct) auto

lemma js_includes_sublist: "js_includes s q = sublist q s"
  by (induction s) (simp_all add: sublist_Cons_right startsWith_prefix)

lemma js_includes_empty: "js_includes s []"
  by (simp add: js_includes_sublist)

lemma mset_insert_sorted: "mset (insert_sorted c x ys) = add_mset x (mset ys)"
  by (induction ys) simp_all

lemma mset_array_sort: "mset (array_sort c xs) = mset xs"
  by (induction xs) (simp_all add: array_sort_def mset_insert_sorted)

lemma array_sort_Cons: "array_sort c (x # xs) = insert_sorted c x (array_sort c xs)"
  by (simp add: array_sort_def)

lemma array_sort_Nil: "array_sort c [] = []"
  by (simp add: array_sort_def)

lemma sum_price_foldl: "foldl (\<lambda>acc item. acc + price item) a rows = a + sum_list (map price rows)"
  by (induction rows arbitrary: a) simp_all

lemma sum_price_sum_list: "sum_price rows = sum_list (map price rows)"
  by (simp add: sum_price_def sum_price_foldl)

section \<open>The two variants compute the same rows\<close>

lemma optimizedBase_filter:
  "optimizedBase lc items s = filter (\<lambda>it. js_includes (lc (name it)) (lc s)) items"
  by (simp add: optimizedBase_def Let_def js_includes_empty)

lemma optimizedRows_naiveList: "optimizedRows lc lcmp items s k = naiveList lc lcmp items s k"
  by (simp add: optimizedRows_def naiveList_def optimizedBase_filter)

lemma filter_insert_sorted_neg: "\<not> P x \<Longrightarrow> filter P (insert_sorted c x ys) = filter P ys"
  by (induction ys) simp_all

lemma filter_insert_sorted_pos:
  "P x \<Longrightarrow> (\<And>y. P y \<Longrightarrow> c x y \<le> 0) \<Longrightarrow> filter P (insert_sorted c x ys) = x # filter P ys"
  by (induction ys) auto

lemma array_sort_stable:
  assumes "\<And>x y. P x \<Longrightarrow> P y \<Longrightarrow> c x y \<le> 0"
  shows "filter P (array_sort c xs) = filter P xs"
proof (induction xs)
  case Nil
  show ?case by (simp add: array_sort_Nil)
next
  case (Cons x xs)
  show ?case
  proof (cases "P x")
    case True
    then have "filter P (insert_sorted c x (array_sort c xs)) = x # filter P (array_sort c xs)"
      using assms by (intro filter_insert_sorted_pos) auto
    with True Cons show ?thesis by (simp add: array_sort_Cons)
  next
    case False
    with Cons show ?thesis by (simp add: array_sort_Cons filter_insert_sorted_neg)
  qed
qed

lemma set_insert_sorted: "set (insert_sorted c x ys) = insert x (set ys)"
  by (induction ys) auto

lemma sorted_insert_sorted:
  assumes total: "\<And>a b. c a b \<le> 0 \<or> c b a \<le> 0"
    and trans: "\<And>a b d. c a b \<le> 0 \<Longrightarrow> c b d \<le> 0 \<Longrightarrow> c a d \<le> 0"
  shows "sorted_wrt (\<lambda>a b. c a b \<le> 0) ys \<Longrightarrow> sorted_wrt (\<lambda>a b. c a b \<le> 0) (insert_sorted c x ys)"
proof (induction ys)
  case Nil
  show ?case by simp
next
  case (Cons y ys)
  show ?case
  proof (cases "c x y \<le> 0")
    case True
    with Cons.prems trans show ?thesis by auto
  next
    case False
    with total have "c y x \<le> 0" by blast
    with False Cons show ?thesis by (auto simp: set_insert_sorted)
  qed
qed

lemma sorted_array_sort:
  assumes "\<And>a b. c a b \<le> 0 \<or> c b a \<le> 0"
    and "\<And>a b d. c a b \<le> 0 \<Longrightarrow> c b d \<le> 0 \<Longrightarrow> c a d \<le> 0"
  shows "sorted_wrt (\<lambda>a b. c a b \<le> 0) (array_sort c xs)"
  by (induction xs) (simp_all add: array_sort_Nil array_sort_Cons sorted_insert_sorted [OF assms])

text \<open>
  The choice of the insertion sort loses nothing: for a consistent comparator (total and
  transitive) there is one ordered, stable arrangement of a sequence, so any stable sort
  returns what \<open>array_sort\<close> returns.
\<close>

lemma sorted_stable_unique:
  fixes c :: "'a \<Rightarrow> 'a \<Rightarrow> int"
  assumes total: "\<And>a b. c a b \<le> 0 \<or> c b a \<le> 0"
  shows "sorted_wrt (\<lambda>a b. c a b \<le> 0) ys \<Longrightarrow> sorted_wrt (\<lambda>a b. c a b \<le> 0) zs \<Longrightarrow>
         mset ys = mset zs \<Longrightarrow>
         (\<And>k. filter (\<lambda>x. c k x \<le> 0 \<and> c x k \<le> 0) ys = filter (\<lambda>x. c k x \<le> 0 \<and> c x k \<le> 0) zs) \<Longrightarrow>
         ys = zs"
proof (induction ys arbitrary: zs)
  case Nil
  then show ?case by simp
next
  case (Cons y ys)
  from Cons.prems(3) have "zs \<noteq> []" by auto
  then obtain z zs' where zs: "zs = z # zs'" by (cases zs) auto
  have refl: "c a a \<le> 0" for a using total [of a a] by simp
  have "y \<in> set zs" using Cons.prems(3) by (metis list.set_intros(1) set_mset_mset)
  then have zy: "c z y \<le> 0" using Cons.prems(2) refl by (auto simp: zs)
  have "z \<in> set (y # ys)" using Cons.prems(3) by (metis list.set_intros(1) set_mset_mset zs)
  then have yz: "c y z \<le> 0" using Cons.prems(1) refl by auto
  from Cons.prems(4) [of y] have "y = z"
    using yz zy refl by (simp add: zs)
  with Cons.prems have "sorted_wrt (\<lambda>a b. c a b \<le> 0) ys" "sorted_wrt (\<lambda>a b. c a b \<le> 0) zs'"
    "mset ys = mset zs'"
    by (simp_all add: zs)
  moreover have "filter (\<lambda>x. c k x \<le> 0 \<and> c x k \<le> 0) ys = filter (\<lambda>x. c k x \<le> 0 \<and> c x k \<le> 0) zs'" for k
    using Cons.prems(4) [of k] \<open>y = z\<close> by (simp add: zs split: if_splits)
  ultimately have "ys = zs'" by (rule Cons.IH)
  with \<open>y = z\<close> show ?case by (simp add: zs)
qed

lemma array_sort_unique:
  fixes c :: "'a \<Rightarrow> 'a \<Rightarrow> int"
  assumes total: "\<And>a b. c a b \<le> 0 \<or> c b a \<le> 0"
    and trans: "\<And>a b d. c a b \<le> 0 \<Longrightarrow> c b d \<le> 0 \<Longrightarrow> c a d \<le> 0"
    and sorted: "sorted_wrt (\<lambda>a b. c a b \<le> 0) ys"
    and perm: "mset ys = mset xs"
    and stable: "\<And>k. filter (\<lambda>x. c k x \<le> 0 \<and> c x k \<le> 0) ys = filter (\<lambda>x. c k x \<le> 0 \<and> c x k \<le> 0) xs"
  shows "ys = array_sort c xs"
proof (rule sorted_stable_unique [OF total sorted])
  show "sorted_wrt (\<lambda>a b. c a b \<le> 0) (array_sort c xs)"
    using total trans by (rule sorted_array_sort)
  show "mset ys = mset (array_sort c xs)"
    by (simp add: perm mset_array_sort)
  fix k
  have "filter (\<lambda>x. c k x \<le> 0 \<and> c x k \<le> 0) (array_sort c xs) = filter (\<lambda>x. c k x \<le> 0 \<and> c x k \<le> 0) xs"
    by (rule array_sort_stable) (blast intro: trans)
  with stable [of k]
  show "filter (\<lambda>x. c k x \<le> 0 \<and> c x k \<le> 0) ys = filter (\<lambda>x. c k x \<le> 0 \<and> c x k \<le> 0) (array_sort c xs)"
    by simp
qed

lemma optimizedList_create_props:
  assumes "items < length (arrays w)"
  shows "fst (optimizedList_create lc lcmp items s k w) < length (arrays (snd (optimizedList_create lc lcmp items s k w)))"
    and "length (arrays w) \<le> fst (optimizedList_create lc lcmp items s k w)"
    and "arrays (snd (optimizedList_create lc lcmp items s k w)) ! fst (optimizedList_create lc lcmp items s k w)
           = optimizedRows lc lcmp (arrays w ! items) s k"
    and "i < length (arrays w) \<Longrightarrow> arrays (snd (optimizedList_create lc lcmp items s k w)) ! i = arrays w ! i"
    and "listRuns (snd (optimizedList_create lc lcmp items s k w)) = listRuns w + 1"
    and "totalRuns (snd (optimizedList_create lc lcmp items s k w)) = totalRuns w"
  using assms
  by (simp_all add: optimizedList_create_def optimizedRows_def optimizedBase_def alloc_def Let_def nth_append)

section \<open>The memoized render\<close>

lemma useMemo_hit: "cell = Some (deps, v) \<Longrightarrow> useMemo create deps cell w = (v, cell, w)"
  by (simp add: useMemo_def)

lemma useMemo_miss:
  "cell = None \<or> (\<exists>d v. cell = Some (d, v) \<and> d \<noteq> deps) \<Longrightarrow>
   useMemo create deps cell w = (fst (create w), Some (deps, fst (create w)), snd (create w))"
  by (auto simp: useMemo_def split_beta)

lemma useMemo_cell: "fst (snd (useMemo create deps cell w)) = Some (deps, fst (useMemo create deps cell w))"
  by (auto simp: useMemo_def split_beta split: option.splits)

lemma renderDerived_hit:
  assumes "listMemo (fst st) = Some ((items, s, k), r)" and "totalMemo (fst st) = Some (r, t)"
  shows "renderDerived lc lcmp items s k st = ((r, t), st)"
  using assms by (cases st) (simp add: renderDerived_def useMemo_hit)

lemma renderDerived_miss:
  assumes c: "consistent lc lcmp st" and i: "items < length (arrays (snd st))"
    and m: "listMemo (fst st) = None \<or> (\<exists>d r. listMemo (fst st) = Some (d, r) \<and> d \<noteq> (items, s, k))"
  shows "renderDerived lc lcmp items s k st =
    (let rw = optimizedList_create lc lcmp items s k (snd st); tw = total_create (fst rw) (snd rw)
     in ((fst rw, fst tw), (\<lparr>listMemo = Some ((items, s, k), fst rw), totalMemo = Some (fst rw, fst tw)\<rparr>, snd tw)))"
proof -
  let ?rw = "optimizedList_create lc lcmp items s k (snd st)"
  have 1: "useMemo (optimizedList_create lc lcmp items s k) (items, s, k) (listMemo (fst st)) (snd st)
        = (fst ?rw, Some ((items, s, k), fst ?rw), snd ?rw)"
    using m by (rule useMemo_miss)
  have fresh: "length (arrays (snd st)) \<le> fst ?rw"
    using i by (rule optimizedList_create_props)
  have "totalMemo (fst st) = None \<or> (\<exists>d v. totalMemo (fst st) = Some (d, v) \<and> d \<noteq> fst ?rw)"
    using c fresh by (auto simp: consistent_def split: option.splits)
  then have 2: "useMemo (total_create (fst ?rw)) (fst ?rw) (totalMemo (fst st)) (snd ?rw)
        = (fst (total_create (fst ?rw) (snd ?rw)), Some (fst ?rw, fst (total_create (fst ?rw) (snd ?rw))),
           snd (total_create (fst ?rw) (snd ?rw)))"
    by (rule useMemo_miss)
  show ?thesis
    by (simp add: renderDerived_def 1 2 Let_def)
qed

lemma renderDerived_cases:
  assumes c: "consistent lc lcmp st" and i: "items < length (arrays (snd st))"
  obtains (hit) r where "listMemo (fst st) = Some ((items, s, k), r)"
      and "totalMemo (fst st) = Some (r, sum_price (arrays (snd st) ! r))"
      and "r < length (arrays (snd st))"
      and "arrays (snd st) ! r = optimizedRows lc lcmp (arrays (snd st) ! items) s k"
      and "renderDerived lc lcmp items s k st = ((r, sum_price (arrays (snd st) ! r)), st)"
  | (miss) "listMemo (fst st) = None \<or> (\<exists>d r. listMemo (fst st) = Some (d, r) \<and> d \<noteq> (items, s, k))"
      and "renderDerived lc lcmp items s k st =
        (let rw = optimizedList_create lc lcmp items s k (snd st); tw = total_create (fst rw) (snd rw)
         in ((fst rw, fst tw), (\<lparr>listMemo = Some ((items, s, k), fst rw), totalMemo = Some (fst rw, fst tw)\<rparr>, snd tw)))"
proof (cases "\<exists>r. listMemo (fst st) = Some ((items, s, k), r)")
  case True
  then obtain r where r: "listMemo (fst st) = Some ((items, s, k), r)" by blast
  with c have t: "totalMemo (fst st) = Some (r, sum_price (arrays (snd st) ! r))"
    and b: "r < length (arrays (snd st))"
    and e: "arrays (snd st) ! r = optimizedRows lc lcmp (arrays (snd st) ! items) s k"
    by (simp_all add: consistent_def)
  from r t have "renderDerived lc lcmp items s k st = ((r, sum_price (arrays (snd st) ! r)), st)"
    by (rule renderDerived_hit)
  with r t b e show ?thesis by (rule hit)
next
  case False
  then have m: "listMemo (fst st) = None \<or> (\<exists>d r. listMemo (fst st) = Some (d, r) \<and> d \<noteq> (items, s, k))"
    by (cases "listMemo (fst st)") auto
  from c i m show ?thesis by (intro miss renderDerived_miss)
qed

lemma renderDerived_sound:
  fixes s :: string and k :: SortKey
  assumes c: "consistent lc lcmp st" and i: "items < length (arrays (snd st))"
  defines "R \<equiv> renderDerived lc lcmp items s k st"
  shows "consistent lc lcmp (snd R)"
    and "fst (fst R) < length (arrays (snd (snd R)))"
    and "arrays (snd (snd R)) ! fst (fst R) = optimizedRows lc lcmp (arrays (snd st) ! items) s k"
    and "snd (fst R) = sum_price (arrays (snd (snd R)) ! fst (fst R))"
    and "length (arrays (snd st)) \<le> length (arrays (snd (snd R)))"
    and "j < length (arrays (snd st)) \<Longrightarrow> arrays (snd (snd R)) ! j = arrays (snd st) ! j"
    and "totalRuns (snd (snd R)) =
           totalRuns (snd st) + (if map_option snd (listMemo (fst st)) = Some (fst (fst R)) then 0 else 1)"
proof -
  let ?rw = "optimizedList_create lc lcmp items s k (snd st)"
  note p = optimizedList_create_props [OF i, where lc = lc and lcmp = lcmp and s = s and k = k]
  have "consistent lc lcmp (snd R) \<and> fst (fst R) < length (arrays (snd (snd R))) \<and>
    arrays (snd (snd R)) ! fst (fst R) = optimizedRows lc lcmp (arrays (snd st) ! items) s k \<and>
    snd (fst R) = sum_price (arrays (snd (snd R)) ! fst (fst R)) \<and>
    length (arrays (snd st)) \<le> length (arrays (snd (snd R))) \<and>
    (j < length (arrays (snd st)) \<longrightarrow> arrays (snd (snd R)) ! j = arrays (snd st) ! j) \<and>
    totalRuns (snd (snd R)) =
           totalRuns (snd st) + (if map_option snd (listMemo (fst st)) = Some (fst (fst R)) then 0 else 1)"
    using c i
  proof (cases rule: renderDerived_cases [where s = s and k = k])
    case (hit r)
    with c show ?thesis by (simp add: R_def)
  next
    case miss
    have old: "map_option snd (listMemo (fst st)) \<noteq> Some (fst ?rw)"
      using c p(2) by (auto simp: consistent_def split: option.splits)
    have len: "length (arrays (snd st)) \<le> length (arrays (snd ?rw))"
      using p(1) p(2) by linarith
    have runs: "listRuns (snd st) = totalRuns (snd st)"
      using c by (simp add: consistent_def)
    have keep: "arrays (snd ?rw) ! items = arrays (snd st) ! items"
      using i by (rule p(4))
    have il: "items < length (arrays (snd ?rw))"
      using i len by linarith
    show ?thesis
      unfolding R_def miss(2)
      using p old len runs keep il
      by (simp add: Let_def total_create_def consistent_def)
  qed
  then show "consistent lc lcmp (snd R)"
    and "fst (fst R) < length (arrays (snd (snd R)))"
    and "arrays (snd (snd R)) ! fst (fst R) = optimizedRows lc lcmp (arrays (snd st) ! items) s k"
    and "snd (fst R) = sum_price (arrays (snd (snd R)) ! fst (fst R))"
    and "length (arrays (snd st)) \<le> length (arrays (snd (snd R)))"
    and "j < length (arrays (snd st)) \<Longrightarrow> arrays (snd (snd R)) ! j = arrays (snd st) ! j"
    and "totalRuns (snd (snd R)) =
           totalRuns (snd st) + (if map_option snd (listMemo (fst st)) = Some (fst (fst R)) then 0 else 1)"
    by simp_all
qed

lemma consistent_mount: "consistent lc lcmp (mount its)"
  by (simp add: consistent_def mount_def)

lemma renders_invariant:
  assumes "consistent lc lcmp st" and "0 < length (arrays (snd st))"
  shows "consistent lc lcmp (renders lc lcmp history st) \<and>
         0 < length (arrays (snd (renders lc lcmp history st))) \<and>
         arrays (snd (renders lc lcmp history st)) ! 0 = arrays (snd st) ! 0"
  using assms
proof (induction history arbitrary: st)
  case Nil
  then show ?case by simp
next
  case (Cons input history)
  obtain s k where input: "input = (s, k)" by (cases input)
  let ?st = "snd (renderDerived lc lcmp 0 s k st)"
  note r = renderDerived_sound [OF Cons.prems, where s = s and k = k]
  have "0 < length (arrays (snd ?st))" using r(5) Cons.prems(2) by linarith
  with r(1) have "consistent lc lcmp (renders lc lcmp history ?st) \<and>
         0 < length (arrays (snd (renders lc lcmp history ?st))) \<and>
         arrays (snd (renders lc lcmp history ?st)) ! 0 = arrays (snd ?st) ! 0"
    by (rule Cons.IH)
  moreover have "arrays (snd ?st) ! 0 = arrays (snd st) ! 0"
    using Cons.prems(2) by (rule r(6))
  ultimately show ?case by (simp add: input)
qed

lemma renders_mount:
  "consistent lc lcmp (renders lc lcmp history (mount its))"
  "0 < length (arrays (snd (renders lc lcmp history (mount its))))"
  "arrays (snd (renders lc lcmp history (mount its))) ! 0 = its"
  using renders_invariant [where st = "mount its" and lc = lc and lcmp = lcmp and history = history]
    consistent_mount [of lc lcmp its]
  by (simp_all add: mount_def)

section \<open>Favorites, rows and the Item Store\<close>

lemma toggled_props:
  assumes "prev < length h"
  shows "fst (toggled h prev x) = length h"
    and "length (snd (toggled h prev x)) = Suc (length h)"
    and "r < length h \<Longrightarrow> snd (toggled h prev x) ! r = h ! r"
    and "snd (toggled h prev x) ! fst (toggled h prev x) =
           (if x \<in> h ! prev then h ! prev - {x} else insert x (h ! prev))"
  using assms by (simp_all add: toggled_def alloc_def Let_def nth_append)

lemma fakeCalc_loop_closed: "i \<le> 500 \<Longrightarrow> fakeCalc_loop p i acc = acc + (500 - i) * p"
proof (induction p i acc rule: fakeCalc_loop.induct)
  case (1 p i acc)
  show ?case
  proof (cases "i < 500")
    case True
    then have "fakeCalc_loop p i acc = fakeCalc_loop p (i + 1) (acc + p)"
      by (subst fakeCalc_loop.simps) simp
    also have "\<dots> = acc + p + (500 - (i + 1)) * p"
      using True by (intro "1.IH") simp_all
    also have "\<dots> = acc + (500 - i) * p"
      by (simp add: algebra_simps)
    finally show ?thesis .
  next
    case False
    with "1.prems" have "i = 500" by simp
    then show ?thesis by (subst fakeCalc_loop.simps) simp
  qed
qed

lemma fakeCalc_create_eq: "fakeCalc_create p = js_rem (500 * p) 7"
  by (simp add: fakeCalc_create_def fakeCalc_loop_closed)

lemma cents_foldl: "foldl (\<lambda>acc _. acc + p) a (replicate n ()) = a + int n * p"
  by (induction n arbitrary: a) (simp_all add: algebra_simps)

lemma NaiveRow_calc: "calc (NaiveRow item isFav) = js_rem (500 * price item) 7"
  by (simp add: NaiveRow_def cents_foldl)

lemma OptimizedRow_ok:
  assumes "cell_ok cell"
  shows "calc (fst (OptimizedRow item isFav cell)) = js_rem (500 * price item) 7"
    and "cell_ok (snd (OptimizedRow item isFav cell))"
  using assms
  by (auto simp: OptimizedRow_def useMemo_def cell_ok_def fakeCalc_create_eq split: option.splits)

lemma rowRenders_ok: "cell_ok cell \<Longrightarrow> cell_ok (rowRenders history cell)"
  by (induction history cell rule: rowRenders.induct) (simp_all add: OptimizedRow_ok)

lemma js_rem_nonneg: "0 \<le> a \<Longrightarrow> js_rem a 7 = a mod 7"
  by (simp add: js_rem_def signed_modulo_int_def sgn_if)

lemma Math_round_bounds:
  assumes "0 \<le> r" and "r < 1"
  shows "5 \<le> rand r 5 500" and "rand r 5 500 \<le> 500"
proof -
  have "5 \<le> r * 495 + 5 + 1 / 2" using assms by simp
  then show "5 \<le> rand r 5 500"
    by (simp add: rand_def Math_round_def le_floor_iff)
  have "r * 495 + 5 + 1 / 2 < 501" using assms by simp
  then show "rand r 5 500 \<le> 500"
    by (simp add: rand_def Math_round_def floor_le_iff)
qed

lemma toLength_small: "n < 2 ^ 32 \<Longrightarrow> toLength n = max n 0"
  by (simp add: toLength_def)

lemma Array_from_small:
  "n < 2 ^ 32 \<Longrightarrow> Array_from n f = Inr (map f [0..<nat n])"
  by (auto simp add: Array_from_def toLength_def Let_def)

lemma RowRenderer_in_range:
  "0 \<le> index \<Longrightarrow> index < int (length list) \<Longrightarrow>
   RowRenderer list favs index = Inr (list ! nat index, item_id (list ! nat index) \<in> favs)"
  by (simp add: RowRenderer_def array_get_def)

lemma RowRenderer_out_of_range:
  "index < 0 \<or> int (length list) \<le> index \<Longrightarrow> RowRenderer list favs index = Inl TypeError"
  by (auto simp add: RowRenderer_def array_get_def)

section \<open>The visible window\<close>

lemma div_lower: "0 < h \<Longrightarrow> h * (x div h) \<le> (x::int)"
  using pos_mod_sign [of h x] mult_div_mod_eq [of h x] by linarith

lemma div_upper: "0 < h \<Longrightarrow> (x::int) < h * (x div h) + h"
  using pos_mod_bound [of h x] mult_div_mod_eq [of h x] by linarith

lemma visible_rows_le:
  fixes h v off :: int
  assumes h: "0 < h" and v: "0 \<le> v"
  shows "off div h \<le> - ((- (off + v)) div h)"
    and "- ((- (off + v)) div h) \<le> off div h + v div h + 2"
proof -
  define a where "a = off div h"
  define c where "c = (- (off + v)) div h"
  define q where "q = v div h"
  have a1: "h * a \<le> off" unfolding a_def using h by (rule div_lower)
  have a2: "off < h * a + h" unfolding a_def using h by (rule div_upper)
  have c1: "h * c \<le> - (off + v)" unfolding c_def using h by (rule div_lower)
  have c2: "- (off + v) < h * c + h" unfolding c_def using h by (rule div_upper)
  have v2: "v < h * q + h" unfolding q_def using h by (rule div_upper)
  have "h * a < h * (1 - c)"
    using a1 c1 v h by (simp add: right_diff_distrib)
  then have "a < 1 - c" using h by (simp only: mult_less_cancel_left_pos)
  then have 1: "a \<le> - c" by simp
  have "h * (- c) < h * (a + q + 3)"
    using c2 a2 v2 by (simp add: distrib_left)
  then have "- c < a + q + 3" using h by (simp only: mult_less_cancel_left_pos)
  then have 2: "- c \<le> a + q + 2" by simp
  from 1 show "off div h \<le> - ((- (off + v)) div h)" by (simp only: a_def c_def)
  from 2 show "- ((- (off + v)) div h) \<le> off div h + v div h + 2" by (simp only: a_def c_def q_def)
qed

lemma clamp_window:
  fixes a b :: int
  assumes "a \<le> b"
  shows "nat (clamp 0 (int R) (a - int k)) \<le> nat (clamp 0 (int R) (b + int k))"
    and "nat (clamp 0 (int R) (b + int k)) \<le> R"
    and "int (nat (clamp 0 (int R) (b + int k))) - int (nat (clamp 0 (int R) (a - int k)))
           \<le> b - a + 2 * int k"
  using assms by (simp_all add: clamp_def)

lemma visibleWindow_bounds:
  assumes h: "0 < h" and v: "0 \<le> v"
  shows "fst (visibleWindow k h v R off) \<le> snd (visibleWindow k h v R off)"
    and "snd (visibleWindow k h v R off) \<le> R"
    and "int (snd (visibleWindow k h v R off)) - int (fst (visibleWindow k h v R off))
           \<le> v div h + 2 + 2 * int k"
proof -
  define off' where "off' = clamp 0 (max 0 (int R * h - v)) off"
  define a where "a = off' div h"
  define b where "b = - ((- (off' + v)) div h)"
  have w: "visibleWindow k h v R off =
             (nat (clamp 0 (int R) (a - int k)), nat (clamp 0 (int R) (b + int k)))"
    by (simp add: visibleWindow_def Let_def off'_def a_def b_def)
  have ab: "a \<le> b" and ba: "b \<le> a + v div h + 2"
    unfolding a_def b_def using h v by (rule visible_rows_le)+
  note c = clamp_window [OF ab, of R k]
  show "fst (visibleWindow k h v R off) \<le> snd (visibleWindow k h v R off)"
    using c(1) by (simp add: w)
  show "snd (visibleWindow k h v R off) \<le> R"
    using c(2) by (simp add: w)
  show "int (snd (visibleWindow k h v R off)) - int (fst (visibleWindow k h v R off))
           \<le> v div h + 2 + 2 * int k"
    using c(3) ba by (simp add: w)
qed

lemma visibleWindow_320_44_lower:
  "8 \<le> int (snd (visibleWindow k 44 320 10000 off)) - int (fst (visibleWindow k 44 320 10000 off))"
proof -
  define off' :: int where "off' = clamp 0 439680 off"
  define a where "a = off' div 44"
  define b where "b = - ((- (off' + 320)) div 44)"
  have w: "visibleWindow k 44 320 10000 off =
             (nat (clamp 0 10000 (a - int k)), nat (clamp 0 10000 (b + int k)))"
    by (simp add: visibleWindow_def Let_def off'_def a_def b_def)
  have o: "0 \<le> off'" "off' \<le> 439680" by (simp_all add: off'_def clamp_def)
  have a1: "44 * a \<le> off'" unfolding a_def by (rule div_lower) simp
  have a2: "off' < 44 * a + 44" unfolding a_def by (rule div_upper) simp
  have b1: "off' + 320 \<le> 44 * b"
    using div_lower [of 44 "- (off' + 320)"] by (simp add: b_def)
  have b2: "44 * b < off' + 320 + 44"
    using div_upper [of 44 "- (off' + 320)"] by (simp add: b_def)
  have a: "0 \<le> a" "a \<le> 9992" "a + 8 \<le> b" "b \<le> 10000"
    using o a1 a2 b1 b2 by linarith+
  show ?thesis
    using a by (simp add: w clamp_def)
qed

section \<open>The claims\<close>

lemmas eval_rows =
  naiveList_def naiveTotal_def optimizedRows_def optimizedBase_def array_sort_def
  compareItems_def sum_price_def dataset3_def ascii_toLowerCase_def Let_def

text \<open>
  C1. For every item sequence, filter string and sort key, the inline computation of the
  naive variant and the memoized computation of the optimized variant give the same
  ordered rows and the same total: as functions of the three inputs, and in every state
  the optimized component can be in, whatever renders it went through since it was
  mounted.
\<close>

theorem C1_naive_and_optimized_agree:
  "optimizedRows lc lcmp items s k = naiveList lc lcmp items s k \<and>
   sum_price (optimizedRows lc lcmp items s k) = naiveTotal lc lcmp items s k \<and>
   (let st = renders lc lcmp history (mount items);
        out = renderDerived lc lcmp 0 s k st
    in arrays (snd (snd out)) ! fst (fst out) = naiveList lc lcmp items s k \<and>
       snd (fst out) = naiveTotal lc lcmp items s k)"
proof -
  let ?st = "renders lc lcmp history (mount items)"
  note m = renders_mount [of lc lcmp history items]
  note r = renderDerived_sound [OF m(1) m(2), where s = s and k = k]
  have "arrays (snd (snd (renderDerived lc lcmp 0 s k ?st))) ! fst (fst (renderDerived lc lcmp 0 s k ?st))
          = naiveList lc lcmp items s k"
    using r(3) m(3) by (simp add: optimizedRows_naiveList)
  moreover from this have "snd (fst (renderDerived lc lcmp 0 s k ?st)) = naiveTotal lc lcmp items s k"
    using r(4) by (simp add: naiveTotal_def)
  ultimately show ?thesis
    by (simp add: optimizedRows_naiveList naiveTotal_def Let_def)
qed

theorem C1_naive_and_optimized_agree_witness:
  "(let st = renders ascii_toLowerCase code_unit_compare [(''z'', Name), (''z'', Price)]
               (mount (dataset3 [] [] []));
        out = renderDerived ascii_toLowerCase code_unit_compare 0 ''A'' Price st
    in map name (arrays (snd (snd out)) ! fst (fst out)) = [''Zeta'', ''Beta'', ''Alpha''] \<and>
       snd (fst out) = 70)"
proof -
  have "naiveList ascii_toLowerCase code_unit_compare (dataset3 [] [] []) ''A'' Price =
          [\<lparr>item_id = 1, name = ''Zeta'', price = 10, category = []\<rparr>,
           \<lparr>item_id = 3, name = ''Beta'', price = 10, category = []\<rparr>,
           \<lparr>item_id = 2, name = ''Alpha'', price = 50, category = []\<rparr>]"
    by (simp add: eval_rows)
  moreover have "naiveTotal ascii_toLowerCase code_unit_compare (dataset3 [] [] []) ''A'' Price = 70"
    by (simp add: eval_rows)
  ultimately show ?thesis
    using C1_naive_and_optimized_agree [of ascii_toLowerCase code_unit_compare "dataset3 [] [] []"
        "''A''" Price "[(''z'', Name), (''z'', Price)]"]
    by (simp add: Let_def)
qed

text \<open>
  C2. For all filter strings \<open>q\<close> and item sequences \<open>I\<close>, the rows computed from
  \<open>(I, q, sortKey)\<close> are exactly the items of \<open>I\<close> whose lowered name contains the
  lowered \<open>q\<close> as a contiguous piece, each as often as in \<open>I\<close> (the multiset of a
  brute-force filter); and the empty filter string yields all items.
\<close>

theorem C2_rows_are_the_matching_items:
  "mset (optimizedRows lc lcmp I q k) = filter_mset (\<lambda>it. sublist (lc q) (lc (name it))) (mset I) \<and>
   mset (naiveList lc lcmp I q k) = filter_mset (\<lambda>it. sublist (lc q) (lc (name it))) (mset I) \<and>
   (lc [] = [] \<longrightarrow>
      mset (optimizedRows lc lcmp I [] k) = mset I \<and> mset (naiveList lc lcmp I [] k) = mset I)"
proof -
  have "mset (naiveList lc lcmp I q k) = filter_mset (\<lambda>it. sublist (lc q) (lc (name it))) (mset I)"
    for q
    by (simp add: naiveList_def mset_array_sort js_includes_sublist)
  then show ?thesis
    by (simp add: optimizedRows_naiveList)
qed

theorem C2_rows_are_the_matching_items_witness:
  "ascii_toLowerCase [] = [] \<and>
   mset (optimizedRows ascii_toLowerCase code_unit_compare (dataset3 [] [] []) [] Price) =
     mset (dataset3 [] [] []) \<and>
   mset (naiveList ascii_toLowerCase code_unit_compare (dataset3 [] [] []) [] Price) =
     mset (dataset3 [] [] [])"
proof -
  have e: "ascii_toLowerCase [] = []" by (simp add: ascii_toLowerCase_def)
  with C2_rows_are_the_matching_items [of ascii_toLowerCase code_unit_compare "dataset3 [] [] []" "[]" Price]
  show ?thesis by blast
qed

lemma optimizedRows_stable:
  assumes "\<And>x y. P x \<Longrightarrow> P y \<Longrightarrow> compareItems lcmp k x y \<le> 0"
  shows "filter P (optimizedRows lc lcmp items q k) = filter P (optimizedBase lc items q)"
  unfolding optimizedRows_def using assms by (rule array_sort_stable)

lemma naiveList_stable:
  assumes "\<And>x y. P x \<Longrightarrow> P y \<Longrightarrow> compareItems lcmp k x y \<le> 0"
  shows "filter P (naiveList lc lcmp items q k) =
         filter P (filter (\<lambda>it. js_includes (lc (name it)) (lc q)) items)"
  unfolding naiveList_def using assms by (rule array_sort_stable)

lemma scenario_by_name:
  assumes "lc [] = []"
    and "lcmp ''Alpha'' ''Beta'' < 0" and "0 < lcmp ''Zeta'' ''Alpha''" and "0 < lcmp ''Zeta'' ''Beta''"
  shows "map name (naiveList lc lcmp (dataset3 ca cb cc) [] Name) = [''Alpha'', ''Beta'', ''Zeta'']"
    and "naiveTotal lc lcmp (dataset3 ca cb cc) [] Name = 70"
  using assms
  by (simp_all add: naiveList_def naiveTotal_def array_sort_def compareItems_def sum_price_def
      dataset3_def js_includes_empty)

lemma scenario_by_price:
  assumes "lc [] = []"
  shows "map name (naiveList lc lcmp (dataset3 ca cb cc) [] Price) = [''Zeta'', ''Beta'', ''Alpha'']"
    and "naiveTotal lc lcmp (dataset3 ca cb cc) [] Price = 70"
  using assms
  by (simp_all add: naiveList_def naiveTotal_def array_sort_def compareItems_def sum_price_def
      dataset3_def js_includes_empty)

lemma code_unit_compare_refl: "code_unit_compare s s = 0"
  by (induction s) simp_all

text \<open>
  C3. The sort is stable: among the rows, the items with one name (when the key is the
  name) or with one price (when the key is the price) come in the order they had in the
  filtered sequence before the sort. This needs of \<open>localeCompare\<close> only that it returns
  \<open>0\<close> on equal strings. On the data set of three items with the empty filter, the key
  \<open>name\<close> gives the rows Alpha, Beta, Zeta and the key \<open>price\<close> gives Zeta, Beta, Alpha,
  both with total 70, for any \<open>localeCompare\<close> that orders Alpha before Beta before Zeta.
\<close>

theorem C3_sort_is_stable:
  assumes refl: "\<forall>s. lcmp s s = 0"
    and empty: "lc [] = []"
    and ab: "lcmp ''Alpha'' ''Beta'' < 0" and ba: "0 < lcmp ''Beta'' ''Alpha''"
    and az: "lcmp ''Alpha'' ''Zeta'' < 0" and za: "0 < lcmp ''Zeta'' ''Alpha''"
    and bz: "lcmp ''Beta'' ''Zeta'' < 0" and zb: "0 < lcmp ''Zeta'' ''Beta''"
  shows
   "filter (\<lambda>it. name it = n) (optimizedRows lc lcmp items q Name) =
      filter (\<lambda>it. name it = n) (optimizedBase lc items q) \<and>
    filter (\<lambda>it. price it = p) (optimizedRows lc lcmp items q Price) =
      filter (\<lambda>it. price it = p) (optimizedBase lc items q) \<and>
    filter (\<lambda>it. name it = n) (naiveList lc lcmp items q Name) =
      filter (\<lambda>it. name it = n) (filter (\<lambda>it. js_includes (lc (name it)) (lc q)) items) \<and>
    filter (\<lambda>it. price it = p) (naiveList lc lcmp items q Price) =
      filter (\<lambda>it. price it = p) (filter (\<lambda>it. js_includes (lc (name it)) (lc q)) items) \<and>
    map name (optimizedRows lc lcmp (dataset3 ca cb cc) [] Name) = [''Alpha'', ''Beta'', ''Zeta''] \<and>
    sum_price (optimizedRows lc lcmp (dataset3 ca cb cc) [] Name) = 70 \<and>
    map name (optimizedRows lc lcmp (dataset3 ca cb cc) [] Price) = [''Zeta'', ''Beta'', ''Alpha''] \<and>
    sum_price (optimizedRows lc lcmp (dataset3 ca cb cc) [] Price) = 70 \<and>
    map name (naiveList lc lcmp (dataset3 ca cb cc) [] Name) = [''Alpha'', ''Beta'', ''Zeta''] \<and>
    naiveTotal lc lcmp (dataset3 ca cb cc) [] Name = 70 \<and>
    map name (naiveList lc lcmp (dataset3 ca cb cc) [] Price) = [''Zeta'', ''Beta'', ''Alpha''] \<and>
    naiveTotal lc lcmp (dataset3 ca cb cc) [] Price = 70"
proof -
  have s1: "filter (\<lambda>it. name it = n) (optimizedRows lc lcmp items q Name) =
      filter (\<lambda>it. name it = n) (optimizedBase lc items q)"
    by (rule optimizedRows_stable) (simp add: compareItems_def refl)
  have s2: "filter (\<lambda>it. price it = p) (optimizedRows lc lcmp items q Price) =
      filter (\<lambda>it. price it = p) (optimizedBase lc items q)"
    by (rule optimizedRows_stable) (simp add: compareItems_def)
  have s3: "filter (\<lambda>it. name it = n) (naiveList lc lcmp items q Name) =
      filter (\<lambda>it. name it = n) (filter (\<lambda>it. js_includes (lc (name it)) (lc q)) items)"
    by (rule naiveList_stable) (simp add: compareItems_def refl)
  have s4: "filter (\<lambda>it. price it = p) (naiveList lc lcmp items q Price) =
      filter (\<lambda>it. price it = p) (filter (\<lambda>it. js_includes (lc (name it)) (lc q)) items)"
    by (rule naiveList_stable) (simp add: compareItems_def)
  note n = scenario_by_name [where lc = lc and lcmp = lcmp and ca = ca and cb = cb and cc = cc,
      OF empty ab za zb]
  note p = scenario_by_price [where lc = lc and lcmp = lcmp and ca = ca and cb = cb and cc = cc,
      OF empty]
  have n': "map name (optimizedRows lc lcmp (dataset3 ca cb cc) [] Name) = [''Alpha'', ''Beta'', ''Zeta'']"
    "sum_price (optimizedRows lc lcmp (dataset3 ca cb cc) [] Name) = 70"
    using n by (simp_all only: optimizedRows_naiveList naiveTotal_def)
  have p': "map name (optimizedRows lc lcmp (dataset3 ca cb cc) [] Price) = [''Zeta'', ''Beta'', ''Alpha'']"
    "sum_price (optimizedRows lc lcmp (dataset3 ca cb cc) [] Price) = 70"
    using p by (simp_all only: optimizedRows_naiveList naiveTotal_def)
  show ?thesis
    by (intro conjI s1 s2 s3 s4 n n' p p')
qed

theorem C3_sort_is_stable_witness:
  "filter (\<lambda>it. price it = 10)
     (optimizedRows ascii_toLowerCase code_unit_compare (dataset3 [] [] []) ''eT'' Price) =
   [\<lparr>item_id = 1, name = ''Zeta'', price = 10, category = []\<rparr>,
    \<lparr>item_id = 3, name = ''Beta'', price = 10, category = []\<rparr>] \<and>
   map name (optimizedRows ascii_toLowerCase code_unit_compare (dataset3 [] [] []) [] Name) =
     [''Alpha'', ''Beta'', ''Zeta''] \<and>
   map name (optimizedRows ascii_toLowerCase code_unit_compare (dataset3 [] [] []) [] Price) =
     [''Zeta'', ''Beta'', ''Alpha'']"
proof -
  have h: "\<forall>s. code_unit_compare s s = 0" "ascii_toLowerCase [] = []"
    "code_unit_compare ''Alpha'' ''Beta'' < 0" "0 < code_unit_compare ''Beta'' ''Alpha''"
    "code_unit_compare ''Alpha'' ''Zeta'' < 0" "0 < code_unit_compare ''Zeta'' ''Alpha''"
    "code_unit_compare ''Beta'' ''Zeta'' < 0" "0 < code_unit_compare ''Zeta'' ''Beta''"
    by (simp_all add: code_unit_compare_refl ascii_toLowerCase_def)
  have b: "filter (\<lambda>it. price it = 10) (optimizedBase ascii_toLowerCase (dataset3 [] [] []) ''eT'') =
    [\<lparr>item_id = 1, name = ''Zeta'', price = 10, category = []\<rparr>,
     \<lparr>item_id = 3, name = ''Beta'', price = 10, category = []\<rparr>]"
    by (simp add: eval_rows)
  note t = C3_sort_is_stable [where lcmp = code_unit_compare and lc = ascii_toLowerCase and n = "[]"
      and p = 10 and items = "dataset3 [] [] []" and q = "''eT''" and ca = "[]" and cb = "[]"
      and cc = "[]", OF h]
  from t have 1: "filter (\<lambda>it. price it = 10)
       (optimizedRows ascii_toLowerCase code_unit_compare (dataset3 [] [] []) ''eT'' Price) =
     filter (\<lambda>it. price it = 10) (optimizedBase ascii_toLowerCase (dataset3 [] [] []) ''eT'')"
    by (elim conjE)
  from t have 2: "map name (optimizedRows ascii_toLowerCase code_unit_compare (dataset3 [] [] []) [] Name) =
     [''Alpha'', ''Beta'', ''Zeta'']"
    by (elim conjE)
  from t have 3: "map name (optimizedRows ascii_toLowerCase code_unit_compare (dataset3 [] [] []) [] Price) =
     [''Zeta'', ''Beta'', ''Alpha'']"
    by (elim conjE)
  show ?thesis
    by (simp only: 1 2 3 b)
qed

lemma renderDerived_cells:
  "listMemo (fst (snd (renderDerived lc lcmp items s k st))) =
     Some ((items, s, k), fst (fst (renderDerived lc lcmp items s k st)))"
  "totalMemo (fst (snd (renderDerived lc lcmp items s k st))) =
     Some (fst (fst (renderDerived lc lcmp items s k st)), snd (fst (renderDerived lc lcmp items s k st)))"
  using useMemo_cell [of "optimizedList_create lc lcmp items s k" "(items, s, k)" "listMemo (fst st)" "snd st"]
    useMemo_cell [of "total_create (fst (useMemo (optimizedList_create lc lcmp items s k) (items, s, k) (listMemo (fst st)) (snd st)))"
      "fst (useMemo (optimizedList_create lc lcmp items s k) (items, s, k) (listMemo (fst st)) (snd st))"
      "totalMemo (fst st)"
      "snd (snd (useMemo (optimizedList_create lc lcmp items s k) (items, s, k) (listMemo (fst st)) (snd st)))"]
  by (simp_all add: renderDerived_def split_beta Let_def)

lemma renderDerived_again:
  "renderDerived lc lcmp items s k (snd (renderDerived lc lcmp items s k st)) =
     (fst (renderDerived lc lcmp items s k st), snd (renderDerived lc lcmp items s k st))"
proof -
  let ?R = "renderDerived lc lcmp items s k st"
  have "renderDerived lc lcmp items s k (snd ?R) = ((fst (fst ?R), snd (fst ?R)), snd ?R)"
    by (rule renderDerived_hit; rule renderDerived_cells)
  then show ?thesis by simp
qed

lemma renders_again:
  "renders lc lcmp (replicate n (s, k)) (snd (renderDerived lc lcmp 0 s k st)) =
     snd (renderDerived lc lcmp 0 s k st)"
  by (induction n) (simp_all add: renderDerived_again)

lemma renderDerived_mount_runs:
  "listRuns (snd (snd (renderDerived lc lcmp 0 s k (mount its)))) = 1"
  "totalRuns (snd (snd (renderDerived lc lcmp 0 s k (mount its)))) = 1"
  by (simp_all add: renderDerived_def mount_def useMemo_def optimizedList_create_def total_create_def
      alloc_def Let_def split_beta)

text \<open>
  C4. Memoization: when the component is rendered again with the item array, filter text
  and sort key of the previous render, it returns the previous rows, the same reference,
  and the previous total, and the whole state is as it was: nothing was allocated and
  neither callback ran. Mounted and rendered any number of times with the same inputs,
  each callback has run exactly once.
\<close>

theorem C4_memoized_recomputation:
  "renderDerived lc lcmp items s k (snd (renderDerived lc lcmp items s k st)) =
     (fst (renderDerived lc lcmp items s k st), snd (renderDerived lc lcmp items s k st)) \<and>
   listRuns (snd (renders lc lcmp (replicate (Suc n) (s, k)) (mount its))) = 1 \<and>
   totalRuns (snd (renders lc lcmp (replicate (Suc n) (s, k)) (mount its))) = 1"
  by (simp add: renderDerived_again renders_again renderDerived_mount_runs)

theorem C4_memoized_recomputation_witness:
  "fst (renderDerived ascii_toLowerCase code_unit_compare 0 ''e'' Name
     (snd (renderDerived ascii_toLowerCase code_unit_compare 0 ''e'' Name (mount (dataset3 [] [] []))))) =
     (2, 20) \<and>
   listRuns (snd (renders ascii_toLowerCase code_unit_compare (replicate (Suc 2) (''e'', Name))
     (mount (dataset3 [] [] [])))) = 1"
proof -
  have c: "fst (renderDerived ascii_toLowerCase code_unit_compare 0 ''e'' Name (mount (dataset3 [] [] []))) = (2, 20)"
    by (simp add: renderDerived_def mount_def useMemo_def optimizedList_create_def total_create_def
        alloc_def split_beta eval_rows)
  note t = C4_memoized_recomputation [of ascii_toLowerCase code_unit_compare 0 "''e''" Name
        "mount (dataset3 [] [] [])" 2 "dataset3 [] [] []"]
  from t have a: "renderDerived ascii_toLowerCase code_unit_compare 0 ''e'' Name
     (snd (renderDerived ascii_toLowerCase code_unit_compare 0 ''e'' Name (mount (dataset3 [] [] [])))) =
     (fst (renderDerived ascii_toLowerCase code_unit_compare 0 ''e'' Name (mount (dataset3 [] [] []))),
      snd (renderDerived ascii_toLowerCase code_unit_compare 0 ''e'' Name (mount (dataset3 [] [] []))))"
    by (elim conjE)
  from t have b: "listRuns (snd (renders ascii_toLowerCase code_unit_compare (replicate (Suc 2) (''e'', Name))
     (mount (dataset3 [] [] [])))) = 1"
    by (elim conjE)
  show ?thesis
    by (simp only: a b c fst_conv simp_thms)
qed

text \<open>
  C6. The total is the sum of the prices of the rows wherever it is observed: in the naive
  variant, and in the optimized variant after any sequence of renders since the mount,
  whether the rows are empty, one or all items. The callback of the total runs exactly
  when the render returns rows other than those of the previous render (another
  reference), so it has run as often as the callback of the rows.
\<close>

theorem C6_total_is_sum_of_rows:
  "naiveTotal lc lcmp items s k = sum_list (map price (naiveList lc lcmp items s k)) \<and>
   (let st = renders lc lcmp history (mount items);
        out = renderDerived lc lcmp 0 s k st
    in snd (fst out) = sum_list (map price (arrays (snd (snd out)) ! fst (fst out))) \<and>
       totalRuns (snd (snd out)) =
         totalRuns (snd st) + (if map_option snd (listMemo (fst st)) = Some (fst (fst out)) then 0 else 1) \<and>
       totalRuns (snd (snd out)) = listRuns (snd (snd out)))"
proof -
  let ?st = "renders lc lcmp history (mount items)"
  note m = renders_mount [of lc lcmp history items]
  note r = renderDerived_sound [OF m(1) m(2), where s = s and k = k]
  have "totalRuns (snd (snd (renderDerived lc lcmp 0 s k ?st))) =
        listRuns (snd (snd (renderDerived lc lcmp 0 s k ?st)))"
    using r(1) by (simp add: consistent_def)
  with r(4) r(7) show ?thesis
    by (simp add: Let_def naiveTotal_def sum_price_sum_list)
qed

theorem C6_total_is_sum_of_rows_witness:
  "(let st = renders ascii_toLowerCase code_unit_compare [(''z'', Name)] (mount (dataset3 [] [] []));
        out = renderDerived ascii_toLowerCase code_unit_compare 0 ''q'' Name st
    in arrays (snd (snd out)) ! fst (fst out) = [] \<and> snd (fst out) = 0 \<and>
       totalRuns (snd (snd out)) = 2)"
proof -
  have "renderDerived ascii_toLowerCase code_unit_compare 0 ''q'' Name
          (renders ascii_toLowerCase code_unit_compare [(''z'', Name)] (mount (dataset3 [] [] []))) =
        ((4, 0),
         \<lparr>listMemo = Some ((0, ''q'', Name), 4), totalMemo = Some (4, 0)\<rparr>,
         \<lparr>arrays = [dataset3 [] [] [],
                    [\<lparr>item_id = 1, name = ''Zeta'', price = 10, category = []\<rparr>],
                    [\<lparr>item_id = 1, name = ''Zeta'', price = 10, category = []\<rparr>], [], []],
          listRuns = 2, totalRuns = 2\<rparr>)"
    by (simp add: renderDerived_def mount_def useMemo_def optimizedList_create_def total_create_def
        alloc_def split_beta eval_rows)
  then show ?thesis
    using C6_total_is_sum_of_rows [of ascii_toLowerCase code_unit_compare "dataset3 [] [] []" "''q''" Name
        "[(''z'', Name)]"]
    by (simp add: Let_def)
qed

text \<open>
  C7. Toggling an id gives a new version of the favorite set: the state points to a
  reference other than the one it pointed to, the set at the old reference (and at every
  other reference allocated before) is what it was, the toggled id is a favorite after
  the toggle exactly when it was not before, and every other id is a favorite after the
  toggle exactly when it was before. This holds for \<open>optToggle\<close>, and for \<open>naiveToggle\<close>
  with respect to the set its render closed over.
\<close>

theorem C7_toggle_makes_new_version:
  assumes cur: "favorites st < length (sets st)" and cap: "captured < length (sets st)"
  shows
   "favorites (optToggle x st) \<noteq> favorites st \<and>
    favorites (optToggle x st) < length (sets (optToggle x st)) \<and>
    (\<forall>r < length (sets st). sets (optToggle x st) ! r = sets st ! r) \<and>
    (isFavorite (optToggle x st) x \<longleftrightarrow> \<not> isFavorite st x) \<and>
    (\<forall>y. y \<noteq> x \<longrightarrow> isFavorite (optToggle x st) y = isFavorite st y) \<and>
    favorites (naiveToggle captured x st) \<noteq> captured \<and>
    favorites (naiveToggle captured x st) < length (sets (naiveToggle captured x st)) \<and>
    (\<forall>r < length (sets st). sets (naiveToggle captured x st) ! r = sets st ! r) \<and>
    (isFavorite (naiveToggle captured x st) x \<longleftrightarrow> x \<notin> sets st ! captured) \<and>
    (\<forall>y. y \<noteq> x \<longrightarrow> isFavorite (naiveToggle captured x st) y = (y \<in> sets st ! captured))"
proof -
  note o = toggled_props [OF cur, where x = x]
  note n = toggled_props [OF cap, where x = x]
  have os: "sets (optToggle x st) = snd (toggled (sets st) (favorites st) x)"
    and of': "favorites (optToggle x st) = fst (toggled (sets st) (favorites st) x)"
    by (simp_all add: optToggle_def split_beta)
  have ns: "sets (naiveToggle captured x st) = snd (toggled (sets st) captured x)"
    and nf: "favorites (naiveToggle captured x st) = fst (toggled (sets st) captured x)"
    by (simp_all add: naiveToggle_def split_beta)
  have "favorites (optToggle x st) \<noteq> favorites st"
    using cur o(1) by (simp add: of')
  moreover have "favorites (optToggle x st) < length (sets (optToggle x st))"
    using o(1) o(2) by (simp add: of' os)
  moreover have "\<forall>r < length (sets st). sets (optToggle x st) ! r = sets st ! r"
    using o(3) by (simp add: os)
  moreover have "isFavorite (optToggle x st) x \<longleftrightarrow> \<not> isFavorite st x"
    using o(4) by (simp add: isFavorite_def os of')
  moreover have "\<forall>y. y \<noteq> x \<longrightarrow> isFavorite (optToggle x st) y = isFavorite st y"
    using o(4) by (simp add: isFavorite_def os of')
  moreover have "favorites (naiveToggle captured x st) \<noteq> captured"
    using cap n(1) by (simp add: nf)
  moreover have "favorites (naiveToggle captured x st) < length (sets (naiveToggle captured x st))"
    using n(1) n(2) by (simp add: nf ns)
  moreover have "\<forall>r < length (sets st). sets (naiveToggle captured x st) ! r = sets st ! r"
    using n(3) by (simp add: ns)
  moreover have "isFavorite (naiveToggle captured x st) x \<longleftrightarrow> x \<notin> sets st ! captured"
    using n(4) by (simp add: isFavorite_def ns nf)
  moreover have "\<forall>y. y \<noteq> x \<longrightarrow> isFavorite (naiveToggle captured x st) y = (y \<in> sets st ! captured)"
    using n(4) by (simp add: isFavorite_def ns nf)
  ultimately show ?thesis by blast
qed

theorem C7_toggle_makes_new_version_witness:
  "favorites (optToggle 7 \<lparr>favorites = 1, sets = [{}, {3, 7}]\<rparr>) \<noteq> 1 \<and>
   sets (optToggle 7 \<lparr>favorites = 1, sets = [{}, {3, 7}]\<rparr>) ! 1 = {3, 7} \<and>
   \<not> isFavorite (optToggle 7 \<lparr>favorites = 1, sets = [{}, {3, 7}]\<rparr>) 7 \<and>
   isFavorite (optToggle 7 \<lparr>favorites = 1, sets = [{}, {3, 7}]\<rparr>) 3 \<and>
   isFavorite (naiveToggle 0 7 \<lparr>favorites = 1, sets = [{}, {3, 7}]\<rparr>) 7"
proof -
  let ?st = "\<lparr>favorites = 1, sets = [{}, {3, 7 :: int}]\<rparr>"
  have cur: "favorites ?st < length (sets ?st)" and cap: "0 < length (sets ?st)"
    by simp_all
  note t = C7_toggle_makes_new_version [OF cur cap, where x = 7]
  have f: "isFavorite ?st 7" "isFavorite ?st 3" "7 \<notin> sets ?st ! 0" "(3::int) \<noteq> 7"
    "(1::nat) < length (sets ?st)" "sets ?st ! 1 = {3, 7}" "favorites ?st = 1"
    by (simp_all add: isFavorite_def)
  from t f show ?thesis by metis
qed

text \<open>
  C8. The value a row shows as \<open>calc\<close> is a function of the price of its item alone: it is
  the remainder of \<open>500 * price\<close> by 7 (for a price that is not negative, \<open>500 * price\<close>
  modulo 7), in the naive row and in the optimized row, whatever the favorite flag is and
  whatever renders the row went through before. Two rows whose items have the same price
  show the same value.
\<close>

theorem C8_calc_is_function_of_price:
  "calc (fst (OptimizedRow item isFav (rowRenders history None))) = js_rem (500 * price item) 7 \<and>
   calc (NaiveRow item isFav) = js_rem (500 * price item) 7 \<and>
   (0 \<le> price item \<longrightarrow> js_rem (500 * price item) 7 = (500 * price item) mod 7) \<and>
   (price item = price item' \<longrightarrow>
      calc (fst (OptimizedRow item isFav (rowRenders history None))) =
        calc (fst (OptimizedRow item' isFav' (rowRenders history' None))) \<and>
      calc (NaiveRow item isFav) = calc (NaiveRow item' isFav'))"
proof -
  have ok: "cell_ok (rowRenders h None)" for h
    by (rule rowRenders_ok) (simp add: cell_ok_def)
  have "calc (fst (OptimizedRow i f (rowRenders h None))) = js_rem (500 * price i) 7" for i f h
    using ok by (rule OptimizedRow_ok)
  then show ?thesis
    by (simp add: NaiveRow_calc js_rem_nonneg)
qed

theorem C8_calc_is_function_of_price_witness:
  "calc (fst (OptimizedRow \<lparr>item_id = 1, name = ''Zeta'', price = 10, category = []\<rparr> True
      (rowRenders [(\<lparr>item_id = 3, name = ''Beta'', price = 10, category = []\<rparr>, False),
                   (\<lparr>item_id = 2, name = ''Alpha'', price = 50, category = []\<rparr>, False)] None))) = 2 \<and>
   calc (NaiveRow \<lparr>item_id = 3, name = ''Beta'', price = 10, category = []\<rparr> False) = 2"
proof -
  let ?z = "\<lparr>item_id = 1, name = ''Zeta'', price = 10, category = []\<rparr>"
  let ?b = "\<lparr>item_id = 3, name = ''Beta'', price = 10, category = []\<rparr>"
  let ?a = "\<lparr>item_id = 2, name = ''Alpha'', price = 50, category = []\<rparr>"
  note t = C8_calc_is_function_of_price [of ?z True "[(?b, False), (?a, False)]" ?b False "[]"]
  have p: "(0::int) \<le> price ?z" "price ?z = price ?b" "(500 * price ?z) mod 7 = 2"
    by simp_all
  from t p show ?thesis by metis
qed

lemma ids_upto: "map (\<lambda>i. int i + 1) [0..<m] = [1..int m]"
proof (induction m)
  case 0
  show ?case by simp
next
  case (Suc m)
  have "[1..int (Suc m)] = [1..int m] @ [int m + 1]"
    using upto_rec2 [of 1 "int m + 1"] by (simp add: add.commute)
  with Suc show ?case by simp
qed

lemma createItems_small:
  assumes "n < 2 ^ 32"
  shows "createItems random toString36 (Some n) =
    Inr (map (\<lambda>i.
       \<lparr>item_id = int i + 1,
        name = ''Product '' @ decimal (i + 1) @ [CHR '' '', CHR 0xB7, CHR '' '']
                 @ toString36 (random (2 * i)),
        price = rand (random (2 * i + 1)) 5 500,
        category = CATEGORIES ! (i mod length CATEGORIES)\<rparr>) [0..<nat n])"
  using assms by (simp add: createItems_def Array_from_small)

lemma createItems_default:
  "createItems random toString36 None = createItems random toString36 (Some 10000)"
  by (simp add: createItems_def)

text \<open>
  C9, as the claim states it, fails: for a count of \<open>2^32\<close> the array constructor throws
  a \<open>RangeError\<close>, so \<open>createItems\<close> returns no sequence at all.
\<close>

theorem C9_createItems_counterexample:
  "createItems half_random no_suffix (Some 4294967296) = Inl RangeError"
  by (simp add: createItems_def Array_from_def toLength_def)

text \<open>
  C9, amended. For every integer \<open>n\<close> below \<open>2^32\<close>, \<open>createItems\<close> returns a sequence of
  exactly \<open>max n 0\<close> items whose ids are \<open>1, ..., n\<close> in order (so they are unique), each
  price is an integer from 5 to 500 and the category of the item at index \<open>i\<close> is the
  entry \<open>i mod 4\<close> of the list of the four categories; for \<open>n \<le> 0\<close> the sequence is empty.
  The numbers \<open>Math.random()\<close> returns are assumed to lie in \<open>[0, 1)\<close>.
\<close>

theorem C9_createItems_below_array_limit:
  assumes n: "n < 2 ^ 32" and rnd: "\<forall>k. 0 \<le> random k \<and> random k < 1"
  shows "\<exists>items. createItems random toString36 (Some n) = Inr items \<and>
      int (length items) = max n 0 \<and>
      map item_id items = [1..n] \<and>
      distinct (map item_id items) \<and>
      (\<forall>it \<in> set items. 5 \<le> price it \<and> price it \<le> 500) \<and>
      (\<forall>i < length items. category (items ! i) = CATEGORIES ! (i mod 4)) \<and>
      length CATEGORIES = 4 \<and>
      (n \<le> 0 \<longrightarrow> items = [])"
proof -
  define mk where "mk = (\<lambda>i.
       \<lparr>item_id = int i + 1,
        name = ''Product '' @ decimal (i + 1) @ [CHR '' '', CHR 0xB7, CHR '' '']
                 @ toString36 (random (2 * i)),
        price = rand (random (2 * i + 1)) 5 500,
        category = CATEGORIES ! (i mod length CATEGORIES)\<rparr>)"
  define items where "items = map mk [0..<nat n]"
  have c: "createItems random toString36 (Some n) = Inr items"
    unfolding items_def mk_def using n by (rule createItems_small)
  have len: "int (length items) = max n 0"
    by (simp add: items_def)
  have "map item_id items = map (\<lambda>i. int i + 1) [0..<nat n]"
    by (simp add: items_def mk_def)
  also have "\<dots> = [1..int (nat n)]" by (rule ids_upto)
  also have "\<dots> = [1..n]" by (cases "0 \<le> n") simp_all
  finally have ids: "map item_id items = [1..n]" .
  have dist: "distinct (map item_id items)"
    unfolding ids by simp
  have pr: "\<forall>it \<in> set items. 5 \<le> price it \<and> price it \<le> 500"
    using rnd by (auto simp: items_def mk_def Math_round_bounds)
  have l4: "length CATEGORIES = 4"
    by (simp add: CATEGORIES_def)
  have cat: "\<forall>i < length items. category (items ! i) = CATEGORIES ! (i mod 4)"
    by (simp add: items_def mk_def l4)
  have emp: "n \<le> 0 \<longrightarrow> items = []"
    by (simp add: items_def)
  from c len ids dist pr cat l4 emp show ?thesis by blast
qed

theorem C9_createItems_below_array_limit_witness:
  "createItems half_random no_suffix (Some (- 3)) = Inr [] \<and>
   (\<exists>items. createItems half_random no_suffix None = Inr items \<and> length items = 10000 \<and>
      map item_id items = [1..10000])"
proof -
  have r: "\<forall>k. 0 \<le> half_random k \<and> half_random k < 1"
    by (simp add: half_random_def)
  have "(- 3 :: int) < 2 ^ 32" by simp
  from C9_createItems_below_array_limit [OF this r, of no_suffix]
  have 1: "createItems half_random no_suffix (Some (- 3)) = Inr []" by auto
  have "(10000 :: int) < 2 ^ 32" by simp
  from C9_createItems_below_array_limit [OF this r, of no_suffix]
  have 2: "\<exists>items. createItems half_random no_suffix None = Inr items \<and> length items = 10000 \<and>
      map item_id items = [1..10000]"
    unfolding createItems_default by auto
  from 1 2 show ?thesis by blast
qed

text \<open>
  C10. For every row sequence and every index with \<open>0 \<le> index < R\<close>, \<open>R\<close> the length of
  the sequence, the lookup of the row renderer finds the item at that index and the row
  is rendered with it and with its favorite flag: no \<open>TypeError\<close> is thrown.
\<close>

theorem C10_row_lookup_succeeds:
  assumes "0 \<le> index" and "index < int (length list)"
  shows "RowRenderer list favs index = Inr (list ! nat index, item_id (list ! nat index) \<in> favs) \<and>
         RowRenderer list favs index \<noteq> Inl TypeError \<and>
         array_get list index = Some (list ! nat index)"
  using assms by (simp add: RowRenderer_in_range array_get_def)

theorem C10_row_lookup_succeeds_witness:
  "RowRenderer (dataset3 [] [] []) {2, 3} 2 =
     Inr (\<lparr>item_id = 3, name = ''Beta'', price = 10, category = []\<rparr>, True)"
proof -
  have "(0::int) \<le> 2" and "(2::int) < int (length (dataset3 [] [] []))"
    by (simp_all add: dataset3_def)
  from C10_row_lookup_succeeds [OF this, of "{2, 3}"]
  show ?thesis by (simp add: dataset3_def)
qed

text \<open>
  C5. For every number of rows \<open>R\<close>, every scroll offset and every overscan, with a
  positive row height and a viewport height that is not negative, the visible window
  \<open>[startIndex, endIndex)\<close> lies in \<open>[0, R]\<close> and holds at most
  \<open>viewportHeight div rowHeight + 2\<close> rows plus the overscan on each side, a bound in
  which \<open>R\<close> does not occur. With viewport height 320 and row height 44 that is at most
  \<open>9 + 2 * overscan\<close> rows for any \<open>R\<close>, and with 10000 rows it is at least 8 rows
  wherever the list is scrolled to: 8 or 9 rows without overscan, 9 to 11 with an
  overscan of one row.
\<close>

theorem C5_window_is_bounded:
  assumes "0 < rowHeight" and "0 \<le> viewportHeight"
  shows
   "fst (visibleWindow overscan rowHeight viewportHeight R scrollOffset)
      \<le> snd (visibleWindow overscan rowHeight viewportHeight R scrollOffset) \<and>
    snd (visibleWindow overscan rowHeight viewportHeight R scrollOffset) \<le> R \<and>
    int (snd (visibleWindow overscan rowHeight viewportHeight R scrollOffset)) -
      int (fst (visibleWindow overscan rowHeight viewportHeight R scrollOffset))
      \<le> viewportHeight div rowHeight + 2 + 2 * int overscan \<and>
    int (snd (visibleWindow overscan 44 320 R scrollOffset)) -
      int (fst (visibleWindow overscan 44 320 R scrollOffset)) \<le> 9 + 2 * int overscan \<and>
    8 \<le> int (snd (visibleWindow overscan 44 320 10000 scrollOffset)) -
      int (fst (visibleWindow overscan 44 320 10000 scrollOffset))"
proof -
  note g = visibleWindow_bounds [OF assms, where k = overscan and R = R and off = scrollOffset]
  have "(0::int) < 44" and "(0::int) \<le> 320" by simp_all
  from visibleWindow_bounds(3) [OF this, where k = overscan and R = R and off = scrollOffset]
  have c: "int (snd (visibleWindow overscan 44 320 R scrollOffset)) -
      int (fst (visibleWindow overscan 44 320 R scrollOffset)) \<le> 9 + 2 * int overscan"
    by simp
  note l = visibleWindow_320_44_lower [of overscan scrollOffset]
  from g c l show ?thesis by blast
qed

theorem C5_window_is_bounded_witness:
  "visibleWindow 1 44 320 10000 439680 = (9991, 10000) \<and>
   snd (visibleWindow 1 44 320 10000 439680) \<le> 10000 \<and>
   int (snd (visibleWindow 1 44 320 10000 439680)) - int (fst (visibleWindow 1 44 320 10000 439680))
     \<le> 320 div 44 + 2 + 2 * int 1"
proof -
  have "(0::int) < 44" and "(0::int) \<le> 320" by simp_all
  note t = C5_window_is_bounded [OF this, of 1 10000 439680]
  have v: "visibleWindow 1 44 320 10000 439680 = (9991, 10000)"
    by (simp add: visibleWindow_def clamp_def Let_def)
  from t v show ?thesis by blast
qed

end
